theory Spec2Isabelle
  imports Main "HOL-Library.AList"
begin

section \<open>Embedding of \<open>src/server.js\<close>\<close>

text \<open>
  The server is a single-threaded Node program: module-level state that is mutated by
  callbacks, each of which runs to completion. The embedding is a record of that state
  and one function per callback; the runtime (the ingest server, the timer queue, the
  child processes, the operating system's signal) is the environment, which chooses the
  next event. A run of the program is a list of events.

  What is left out: the text written with \<open>console.log\<close>, and with it the two
  \<open>data\<close> listeners on the child's output streams, the probe of the output
  directory scheduled 5 s after a start and the listeners of the ingest server other
  than \<open>postPublish\<close> and \<open>donePublish\<close>, which only print. The one
  \<open>console.error\<close> of the source is kept. Of the HTTP server, the header callback
  of the \<open>/live\<close> file handler is modelled.

  What the environment decides is part of the state from the start: which paths exist,
  which directories cannot be made, and whether a listener for uncaught exceptions is
  installed (the source installs none; the ingest library may, in \<open>nms.run()\<close>).
\<close>

subsection \<open>Node's \<open>path.join\<close> (POSIX)\<close>

text \<open>\<open>p.split("/")\<close>: the pieces between separators, empty pieces included.\<close>

fun split_sep :: "string \<Rightarrow> string list" where
  "split_sep [] = [[]]"
| "split_sep (c # cs) =
     (if c = CHR ''/'' then [] # split_sep cs
      else (case split_sep cs of
              [] \<Rightarrow> [[c]]
            | w # ws \<Rightarrow> (c # w) # ws))"

text \<open>
  The segment walk of \<open>normalizeString\<close>: the accumulator holds the segments kept so
  far, last one first. Empty segments and \<open>.\<close> are dropped; \<open>..\<close> removes the last
  kept segment unless there is none or it is itself \<open>..\<close>, in which case it is kept
  only when the path may climb above its start.
\<close>

fun normalizeString :: "bool \<Rightarrow> string list \<Rightarrow> string list \<Rightarrow> string list" where
  "normalizeString allowAboveRoot acc [] = rev acc"
| "normalizeString allowAboveRoot acc (seg # segs) =
     (if seg = [] \<or> seg = ''.'' then normalizeString allowAboveRoot acc segs
      else if seg = ''..'' then
        (case acc of
           [] \<Rightarrow> normalizeString allowAboveRoot (if allowAboveRoot then [''..''] else []) segs
         | a # as \<Rightarrow>
             if a = ''..''
             then normalizeString allowAboveRoot (if allowAboveRoot then ''..'' # acc else acc) segs
             else normalizeString allowAboveRoot as segs)
      else normalizeString allowAboveRoot (seg # acc) segs)"

fun join_sep :: "string list \<Rightarrow> string" where
  "join_sep [] = []"
| "join_sep [x] = x"
| "join_sep (x # y # ys) = x @ ''/'' @ join_sep (y # ys)"

definition path_normalize :: "string \<Rightarrow> string" where
  "path_normalize p =
     (if p = [] then ''.''
      else
        let isAbsolute = (hd p = CHR ''/'');
            trailingSeparator = (last p = CHR ''/'');
            q = join_sep (normalizeString (\<not> isAbsolute) [] (split_sep p))
        in if q = [] then (if isAbsolute then ''/'' else if trailingSeparator then ''./'' else ''.'')
           else (if isAbsolute then ''/'' else []) @ q @ (if trailingSeparator then ''/'' else []))"

definition path_join :: "string list \<Rightarrow> string" where
  "path_join args =
     (let parts = filter (\<lambda>a. a \<noteq> []) args
      in if parts = [] then ''.'' else path_normalize (join_sep parts))"

subsection \<open>State\<close>

text \<open>
  A child process as the server sees it: what it was spawned with, the \<open>streamKey\<close>
  its \<open>close\<close> listener has captured, the signals the server has asked \<open>kill\<close> to
  send (oldest first), and whether its \<open>close\<close> event has been emitted.
\<close>

record child =
  command :: string
  args :: "string list"
  handlerKey :: string
  signals :: "string list"
  closed :: bool

text \<open>An exception thrown by the file system: \<open>mkdirSync\<close> could not make the path.\<close>

datatype error = MkdirError string

text \<open>
  \<open>ffmpegProcesses\<close> is a JavaScript \<open>Map\<close>: an association list in insertion
  order, where \<open>set\<close> on a present key replaces the value in place
  (\<open>AList.update\<close>) and \<open>delete\<close> removes the entry (\<open>AList.delete\<close>). A handle is
  the index of the child in \<open>children\<close>, the list of every process spawned so far.
  \<open>timers\<close> holds the \<open>streamKey\<close> of each pending 1000 ms start timer, oldest
  first; \<open>exitCode\<close> is set when the process ends. \<open>dirs\<close> holds the paths that
  exist, \<open>unwritable\<close> the paths that \<open>mkdirSync\<close> cannot make (a file is in the
  way, or permission is missing). \<open>uncaught\<close> lists the exceptions that left a callback
  uncaught; \<open>catchesUncaught\<close> says whether a listener for them is installed.
\<close>

record server =
  mediaDir :: string
  dirs :: "string set"
  unwritable :: "string set"
  ffmpegProcesses :: "(string \<times> nat) list"
  children :: "child list"
  timers :: "string list"
  stderr :: "string list"
  uncaught :: "error list"
  catchesUncaught :: bool
  exitCode :: "int option"

subsection \<open>File system\<close>

definition existsSync :: "server \<Rightarrow> string \<Rightarrow> bool" where
  "existsSync s p = (p \<in> dirs s)"

text \<open>The proper prefixes of a path that end before a separator.\<close>

definition ancestors :: "string \<Rightarrow> string list" where
  "ancestors p = map (\<lambda>i. take i p) (filter (\<lambda>i. p ! i = CHR ''/'') [1..<length p])"

text \<open>
  \<open>fs.mkdirSync(p, { recursive: true })\<close>: makes the directory and its missing parents,
  or throws when it cannot.
\<close>

definition mkdirSync :: "string \<Rightarrow> server \<Rightarrow> error + server" where
  "mkdirSync p s =
     (if p \<in> unwritable s then Inl (MkdirError p)
      else Inr (s\<lparr>dirs := dirs s \<union> set (p # ancestors p)\<rparr>))"

subsection \<open>Exceptions that leave a callback\<close>

text \<open>
  An exception that no callback catches reaches the process: with a listener for
  \<open>uncaughtException\<close> installed the process goes on, without one it ends with
  code 1. The source has no \<open>try\<close> anywhere.
\<close>

definition uncaughtException :: "error \<Rightarrow> server \<Rightarrow> server" where
  "uncaughtException e s =
     (if catchesUncaught s then s\<lparr>uncaught := uncaught s @ [e]\<rparr>
      else s\<lparr>uncaught := uncaught s @ [e], exitCode := Some 1\<rparr>)"

subsection \<open>Module initialisation (lines 8-16)\<close>

text \<open>
  The arguments are the directory of the module, the paths that exist, the paths that
  cannot be made, and whether uncaught exceptions will be caught once the servers run.
  An exception at line 12 ends the process with code 1: nothing is listening yet.
\<close>

definition init :: "string \<Rightarrow> string set \<Rightarrow> string set \<Rightarrow> bool \<Rightarrow> server" where
  "init dirname fs ro catches =
     (let s = \<lparr>mediaDir = path_join [dirname, ''media''], dirs = fs, unwritable = ro,
               ffmpegProcesses = [], children = [], timers = [], stderr = [],
               uncaught = [], catchesUncaught = catches, exitCode = None\<rparr>
      in if \<not> existsSync s (mediaDir s)
         then (case mkdirSync (mediaDir s) s of
                 Inl e \<Rightarrow> s\<lparr>uncaught := [e], exitCode := Some 1\<rparr>
               | Inr t \<Rightarrow> t)
         else s)"

subsection \<open>Child processes\<close>

text \<open>
  \<open>spawn(command, args)\<close> returns a handle at once, also when the executable is
  missing: that failure arrives later as the child's \<open>error\<close> event.
\<close>

definition spawn :: "string \<Rightarrow> string list \<Rightarrow> string \<Rightarrow> server \<Rightarrow> nat \<times> server" where
  "spawn cmd as k s =
     (length (children s),
      s\<lparr>children := children s @
           [\<lparr>command = cmd, args = as, handlerKey = k, signals = [], closed = False\<rparr>]\<rparr>)"

text \<open>\<open>ffmpeg.kill(sig)\<close>: the request is recorded on the child.\<close>

definition kill :: "nat \<Rightarrow> string \<Rightarrow> server \<Rightarrow> server" where
  "kill p sig s =
     (if p < length (children s)
      then s\<lparr>children := (children s)[p := (children s ! p)\<lparr>signals := signals (children s ! p) @ [sig]\<rparr>]\<rparr>
      else s)"

subsection \<open>\<open>startFFmpegTranscoding\<close> (lines 39-150)\<close>

definition inputUrl :: "string \<Rightarrow> string" where
  "inputUrl streamKey = ''rtmp://localhost:1935/live/'' @ streamKey"

definition outputDir :: "server \<Rightarrow> string \<Rightarrow> string" where
  "outputDir s streamKey = path_join [mediaDir s, ''live'', streamKey]"

definition ffmpegArgs :: "server \<Rightarrow> string \<Rightarrow> string list" where
  "ffmpegArgs s streamKey =
     [''-i'', inputUrl streamKey,
      ''-c:v'', ''libx264'',
      ''-c:a'', ''aac'',
      ''-b:v'', ''2500k'',
      ''-b:a'', ''128k'',
      ''-vf'', ''scale=1280:720'',
      ''-preset'', ''veryfast'',
      ''-g'', ''50'',
      ''-sc_threshold'', ''0'',
      ''-f'', ''hls'',
      ''-hls_time'', ''2'',
      ''-hls_list_size'', ''5'',
      ''-hls_flags'', ''delete_segments'',
      ''-hls_segment_filename'', path_join [outputDir s streamKey, ''segment_%03d.ts''],
      path_join [outputDir s streamKey, ''index.m3u8'']]"

text \<open>Lines 52-94: the process is spawned and its handle stored under the key.\<close>

definition spawnFFmpeg :: "string \<Rightarrow> server \<Rightarrow> server" where
  "spawnFFmpeg streamKey s =
     (let (ffmpeg, s2) = spawn ''ffmpeg'' (ffmpegArgs s streamKey) streamKey s
      in s2\<lparr>ffmpegProcesses := AList.update streamKey ffmpeg (ffmpegProcesses s2)\<rparr>)"

text \<open>
  The whole function: when the output directory is missing and cannot be made,
  \<open>mkdirSync\<close> throws at line 48 and neither \<open>spawn\<close> nor the registry update is
  reached.
\<close>

definition startFFmpegTranscoding :: "string \<Rightarrow> server \<Rightarrow> error + server" where
  "startFFmpegTranscoding streamKey s =
     (case (if \<not> existsSync s (outputDir s streamKey)
            then mkdirSync (outputDir s streamKey) s else Inr s) of
        Inl e \<Rightarrow> Inl e
      | Inr s1 \<Rightarrow> Inr (spawnFFmpeg streamKey s1))"

text \<open>The child's \<open>error\<close> listener (lines 114-116).\<close>

definition onError :: "string \<Rightarrow> server \<Rightarrow> server" where
  "onError message s = s\<lparr>stderr := stderr s @ [''FFmpeg Error: '' @ message]\<rparr>"

text \<open>
  The child's \<open>close\<close> listener (lines 118-127), for the child \<open>p\<close>: the entry
  deleted is the one under the \<open>streamKey\<close> the listener has captured. The exit code
  (\<open>None\<close> when a signal ended the process) only selects the line printed.
\<close>

definition onClose :: "nat \<Rightarrow> int option \<Rightarrow> server \<Rightarrow> server" where
  "onClose p code s =
     s\<lparr>children := (children s)[p := (children s ! p)\<lparr>closed := True\<rparr>],
       ffmpegProcesses := AList.delete (handlerKey (children s ! p)) (ffmpegProcesses s)\<rparr>"

subsection \<open>\<open>stopFFmpegTranscoding\<close> (lines 153-160)\<close>

definition stopFFmpegTranscoding :: "string \<Rightarrow> server \<Rightarrow> server" where
  "stopFFmpegTranscoding streamKey s =
     (case map_of (ffmpegProcesses s) streamKey of
        None \<Rightarrow> s
      | Some ffmpeg \<Rightarrow>
          (kill ffmpeg ''SIGTERM'' s)\<lparr>ffmpegProcesses := AList.delete streamKey (ffmpegProcesses s)\<rparr>)"

subsection \<open>Ingest events (lines 175-192)\<close>

text \<open>
  The ingest server calls the listeners with the session and stream path of the
  publisher; both listeners are declared without parameters and use the constant
  \<open>"demo"\<close>. The argument below is what the ingest server delivered.
\<close>

definition postPublish :: "string \<Rightarrow> server \<Rightarrow> server" where
  "postPublish delivered s = (let streamKey = ''demo'' in s\<lparr>timers := timers s @ [streamKey]\<rparr>)"

definition donePublish :: "string \<Rightarrow> server \<Rightarrow> server" where
  "donePublish delivered s = (let streamKey = ''demo'' in stopFFmpegTranscoding streamKey s)"

subsection \<open>The \<open>SIGINT\<close> listeners\<close>

text \<open>The source's listener (lines 244-255).\<close>

definition onSIGINT :: "server \<Rightarrow> server" where
  "onSIGINT s =
     (fold (\<lambda>(streamKey, ffmpeg) t. kill ffmpeg ''SIGTERM'' t) (ffmpegProcesses s) s)
       \<lparr>exitCode := Some 0\<rparr>"

text \<open>
  The listener of the ingest library: \<open>nms.run()\<close> (line 202) registers it before the
  source registers its own (line 244). It calls \<open>process.exit()\<close>, which ends the
  process with code 0.
\<close>

definition nms_onSIGINT :: "server \<Rightarrow> server" where
  "nms_onSIGINT s = s\<lparr>exitCode := Some 0\<rparr>"

text \<open>
  \<open>process.emit\<close>: the listeners of an event run in the order they were registered;
  once one of them has ended the process, the others do not run.
\<close>

fun emit :: "(server \<Rightarrow> server) list \<Rightarrow> server \<Rightarrow> server" where
  "emit [] s = s"
| "emit (l # ls) s = (if exitCode s = None then emit ls (l s) else s)"

subsection \<open>The response headers of \<open>/live\<close> (lines 210-223)\<close>

definition endsWith :: "string \<Rightarrow> string \<Rightarrow> bool" where
  "endsWith s suffix = (length suffix \<le> length s \<and> drop (length s - length suffix) s = suffix)"

text \<open>\<open>res.set(name, value)\<close> on the response's header table.\<close>

definition res_set :: "string \<Rightarrow> string \<Rightarrow> (string \<rightharpoonup> string) \<Rightarrow> (string \<rightharpoonup> string)" where
  "res_set name v res = res(name \<mapsto> v)"

definition setHeaders :: "(string \<rightharpoonup> string) \<Rightarrow> string \<Rightarrow> (string \<rightharpoonup> string)" where
  "setHeaders res filePath =
     (let r1 = res_set ''Access-Control-Allow-Origin'' ''*'' res;
          r2 = res_set ''Cache-Control'' ''no-cache, no-store, must-revalidate'' r1
      in if endsWith filePath ''.m3u8'' then res_set ''Content-Type'' ''application/vnd.apple.mpegurl'' r2
         else if endsWith filePath ''.ts'' then res_set ''Content-Type'' ''video/mp2t'' r2
         else r2)"

subsection \<open>Events and runs\<close>

text \<open>
  \<open>StartTimer\<close> is the expiry of the oldest pending start timer (all have the same
  delay, so they expire in the order they were set); an exception of
  \<open>startFFmpegTranscoding\<close> leaves the timer's callback uncaught. \<open>ChildError\<close> and
  \<open>ChildClose\<close> are events of a child that has been spawned. After the process has
  ended no listener runs.
\<close>

datatype event =
    PostPublish string
  | DonePublish string
  | StartTimer
  | ChildError nat string
  | ChildClose nat "int option"
  | SIGINT

fun handle :: "event \<Rightarrow> server \<Rightarrow> server" where
  "handle (PostPublish delivered) s = postPublish delivered s"
| "handle (DonePublish delivered) s = donePublish delivered s"
| "handle StartTimer s =
     (case timers s of
        [] \<Rightarrow> s
      | streamKey # rest \<Rightarrow>
          (case startFFmpegTranscoding streamKey (s\<lparr>timers := rest\<rparr>) of
             Inl e \<Rightarrow> uncaughtException e (s\<lparr>timers := rest\<rparr>)
           | Inr t \<Rightarrow> t))"
| "handle (ChildError p message) s = (if p < length (children s) then onError message s else s)"
| "handle (ChildClose p code) s = (if p < length (children s) then onClose p code s else s)"
| "handle SIGINT s = emit [nms_onSIGINT, onSIGINT] s"

definition step :: "server \<Rightarrow> event \<Rightarrow> server" where
  "step s e = (if exitCode s = None then handle e s else s)"

definition run :: "server \<Rightarrow> event list \<Rightarrow> server" where
  "run s es = foldl step s es"

text \<open>The children spawned for a key whose \<open>close\<close> has not been emitted.\<close>

definition liveJobs :: "string \<Rightarrow> server \<Rightarrow> nat list" where
  "liveJobs k s =
     filter (\<lambda>p. handlerKey (children s ! p) = k \<and> \<not> closed (children s ! p)) [0..<length (children s)]"

text \<open>Every \<open>spawn\<close> call made so far: command, arguments and captured key.\<close>

definition spawned :: "server \<Rightarrow> (string \<times> string list \<times> string) list" where
  "spawned s = map (\<lambda>c. (command c, args c, handlerKey c)) (children s)"

text \<open>Every signal the server has asked to send so far, child by child.\<close>

definition sent :: "server \<Rightarrow> string list" where
  "sent s = concat (map signals (children s))"

text \<open>The number of publish notifications in a run.\<close>

fun publishes :: "event list \<Rightarrow> nat" where
  "publishes [] = 0"
| "publishes (PostPublish d # es) = Suc (publishes es)"
| "publishes (e # es) = publishes es"

section \<open>Properties of the handlers\<close>

subsection \<open>Runs\<close>

lemma run_Nil: "run s [] = s" by (simp add: run_def)

lemma run_Cons: "run s (e # es) = run (step s e) es" by (simp add: run_def)

lemma run_append: "run s (es @ fs) = run (run s es) fs" by (simp add: run_def)

lemma run_exited: "exitCode s \<noteq> None \<Longrightarrow> run s es = s"
  by (induction es) (auto simp add: run_Nil run_Cons step_def)

subsection \<open>What each handler leaves unchanged\<close>

lemma kill_fields:
  "ffmpegProcesses (kill p g s) = ffmpegProcesses s"
  "timers (kill p g s) = timers s"
  "stderr (kill p g s) = stderr s"
  "exitCode (kill p g s) = exitCode s"
  "dirs (kill p g s) = dirs s"
  "unwritable (kill p g s) = unwritable s"
  "mediaDir (kill p g s) = mediaDir s"
  "length (children (kill p g s)) = length (children s)"
  by (simp_all add: kill_def)

lemma kill_child:
  "children (kill p g s) ! q =
     (if q = p \<and> p < length (children s)
      then (children s ! p)\<lparr>signals := signals (children s ! p) @ [g]\<rparr>
      else children s ! q)"
  by (simp add: kill_def)

lemma kill_map_closed: "map closed (children (kill p g s)) = map closed (children s)"
  by (simp add: kill_def map_update list_update_same_conv)

lemma kill_map_handlerKey: "map handlerKey (children (kill p g s)) = map handlerKey (children s)"
  by (simp add: kill_def map_update list_update_same_conv)

lemma fold_kill_fields:
  "exitCode (fold (\<lambda>(k, p) t. kill p g t) xs s) = exitCode s"
  "map closed (children (fold (\<lambda>(k, p) t. kill p g t) xs s)) = map closed (children s)"
  by (induction xs arbitrary: s; simp add: kill_fields kill_map_closed split: prod.splits)+

lemma stop_fields:
  "timers (stopFFmpegTranscoding k s) = timers s"
  "stderr (stopFFmpegTranscoding k s) = stderr s"
  "exitCode (stopFFmpegTranscoding k s) = exitCode s"
  "mediaDir (stopFFmpegTranscoding k s) = mediaDir s"
  "dirs (stopFFmpegTranscoding k s) = dirs s"
  "unwritable (stopFFmpegTranscoding k s) = unwritable s"
  "length (children (stopFFmpegTranscoding k s)) = length (children s)"
  "map closed (children (stopFFmpegTranscoding k s)) = map closed (children s)"
  "map handlerKey (children (stopFFmpegTranscoding k s)) = map handlerKey (children s)"
  "ffmpegProcesses (stopFFmpegTranscoding k s) = AList.delete k (ffmpegProcesses s)"
  by (auto simp add: stopFFmpegTranscoding_def kill_fields kill_map_closed kill_map_handlerKey
      map_of_eq_None_iff split: option.splits)

lemma map_update_same:
  assumes "f y = f (xs ! p)"
  shows "map f (xs[p := y]) = map f xs"
proof (cases "p < length xs")
  case True
  with assms show ?thesis by (simp add: map_update list_update_same_conv)
next
  case False
  then have "xs[p := y] = xs" by (simp add: list_update_beyond)
  then show ?thesis by simp
qed

lemma onClose_fields:
  "timers (onClose p c s) = timers s"
  "stderr (onClose p c s) = stderr s"
  "exitCode (onClose p c s) = exitCode s"
  "mediaDir (onClose p c s) = mediaDir s"
  "dirs (onClose p c s) = dirs s"
  "length (children (onClose p c s)) = length (children s)"
  "map handlerKey (children (onClose p c s)) = map handlerKey (children s)"
  "ffmpegProcesses (onClose p c s) = AList.delete (handlerKey (children s ! p)) (ffmpegProcesses s)"
  by (simp_all add: onClose_def map_update_same)

lemma onSIGINT_fields:
  "exitCode (onSIGINT s) = Some 0"
  "map closed (children (onSIGINT s)) = map closed (children s)"
  by (simp_all add: onSIGINT_def fold_kill_fields)

lemma spawnFFmpeg_fields:
  "timers (spawnFFmpeg k s) = timers s"
  "stderr (spawnFFmpeg k s) = stderr s"
  "exitCode (spawnFFmpeg k s) = exitCode s"
  "mediaDir (spawnFFmpeg k s) = mediaDir s"
  "dirs (spawnFFmpeg k s) = dirs s"
  "children (spawnFFmpeg k s) = children s @
     [\<lparr>command = ''ffmpeg'', args = ffmpegArgs s k, handlerKey = k, signals = [], closed = False\<rparr>]"
  "ffmpegProcesses (spawnFFmpeg k s) = AList.update k (length (children s)) (ffmpegProcesses s)"
  by (simp_all add: spawnFFmpeg_def spawn_def)

lemma uncaught_fields:
  "timers (uncaughtException e s) = timers s"
  "stderr (uncaughtException e s) = stderr s"
  "mediaDir (uncaughtException e s) = mediaDir s"
  "dirs (uncaughtException e s) = dirs s"
  "children (uncaughtException e s) = children s"
  "ffmpegProcesses (uncaughtException e s) = ffmpegProcesses s"
  by (simp_all add: uncaughtException_def)

lemma ffmpegArgs_cong: "mediaDir s = mediaDir t \<Longrightarrow> ffmpegArgs s k = ffmpegArgs t k"
  by (simp add: ffmpegArgs_def outputDir_def)

lemma outputDir_cong: "mediaDir s = mediaDir t \<Longrightarrow> outputDir s k = outputDir t k"
  by (simp add: outputDir_def)

lemma ffmpegArgs_upd [simp]:
  "ffmpegArgs (s\<lparr>timers := ts\<rparr>) k = ffmpegArgs s k"
  "ffmpegArgs (s\<lparr>dirs := ds\<rparr>) k = ffmpegArgs s k"
  by (rule ffmpegArgs_cong, simp)+

lemma outputDir_upd [simp]:
  "outputDir (s\<lparr>timers := ts\<rparr>) k = outputDir s k"
  "outputDir (s\<lparr>dirs := ds\<rparr>) k = outputDir s k"
  by (rule outputDir_cong, simp)+

subsection \<open>The outcomes of a start and of a step\<close>

text \<open>A start fails when the directory is missing and cannot be made; otherwise it spawns.\<close>

lemma start_simp:
  "startFFmpegTranscoding k s =
     (if existsSync s (outputDir s k) then Inr (spawnFFmpeg k s)
      else if outputDir s k \<in> unwritable s then Inl (MkdirError (outputDir s k))
      else Inr (spawnFFmpeg k (s\<lparr>dirs := dirs s \<union> set (outputDir s k # ancestors (outputDir s k))\<rparr>)))"
  by (simp add: startFFmpegTranscoding_def mkdirSync_def)

lemma step_cases [case_names idle publish unpublish started made failed error close exit]:
  obtains "step s e = s"
  | d where "e = PostPublish d" and "step s e = s\<lparr>timers := timers s @ [''demo'']\<rparr>"
  | "step s e = stopFFmpegTranscoding ''demo'' s"
  | k rest where "timers s = k # rest" and "step s e = spawnFFmpeg k (s\<lparr>timers := rest\<rparr>)"
  | k rest where "timers s = k # rest"
      and "step s e = spawnFFmpeg k
             (s\<lparr>timers := rest, dirs := dirs s \<union> set (outputDir s k # ancestors (outputDir s k))\<rparr>)"
  | k rest where "timers s = k # rest"
      and "step s e = uncaughtException (MkdirError (outputDir s k)) (s\<lparr>timers := rest\<rparr>)"
  | m where "step s e = onError m s"
  | p c where "p < length (children s)" and "step s e = onClose p c s"
  | "step s e = s\<lparr>exitCode := Some 0\<rparr>"
proof (cases "exitCode s = None")
  case False
  then have "step s e = s" unfolding step_def by (rule if_not_P)
  then show ?thesis by (rule that(1))
next
  case True
  then have h: "step s e' = handle e' s" for e' by (simp add: step_def)
  show ?thesis
  proof (cases e)
    case (PostPublish d)
    then have "step s e = s\<lparr>timers := timers s @ [''demo'']\<rparr>"
      by (simp add: h postPublish_def)
    with PostPublish show ?thesis by (rule that(2))
  next
    case (DonePublish d)
    then have "step s e = stopFFmpegTranscoding ''demo'' s"
      by (simp add: h donePublish_def)
    then show ?thesis by (rule that(3))
  next
    case StartTimer
    show ?thesis
    proof (cases "timers s")
      case Nil
      with StartTimer have "step s e = s" by (simp add: h)
      then show ?thesis by (rule that(1))
    next
      case (Cons k rest)
      consider (a) "existsSync s (outputDir s k)"
        | (b) "\<not> existsSync s (outputDir s k)" "outputDir s k \<notin> unwritable s"
        | (c) "\<not> existsSync s (outputDir s k)" "outputDir s k \<in> unwritable s"
        by blast
      then show ?thesis
      proof cases
        case a
        with StartTimer Cons have "step s e = spawnFFmpeg k (s\<lparr>timers := rest\<rparr>)"
          by (simp add: h start_simp existsSync_def)
        with Cons show ?thesis by (rule that(4))
      next
        case b
        with StartTimer Cons have "step s e = spawnFFmpeg k
             (s\<lparr>timers := rest, dirs := dirs s \<union> set (outputDir s k # ancestors (outputDir s k))\<rparr>)"
          by (simp add: h start_simp existsSync_def)
        with Cons show ?thesis by (rule that(5))
      next
        case c
        with StartTimer Cons have "step s e
            = uncaughtException (MkdirError (outputDir s k)) (s\<lparr>timers := rest\<rparr>)"
          by (simp add: h start_simp existsSync_def)
        with Cons show ?thesis by (rule that(6))
      qed
    qed
  next
    case (ChildError p m)
    show ?thesis
    proof (cases "p < length (children s)")
      case True
      with ChildError have "step s e = onError m s" by (simp add: h)
      then show ?thesis by (rule that(7))
    next
      case False
      with ChildError have "step s e = s" by (simp add: h)
      then show ?thesis by (rule that(1))
    qed
  next
    case (ChildClose p c)
    show ?thesis
    proof (cases "p < length (children s)")
      case True
      with ChildClose have "step s e = onClose p c s" by (simp add: h)
      with True show ?thesis by (rule that(8))
    next
      case False
      with ChildClose have "step s e = s" by (simp add: h)
      then show ?thesis by (rule that(1))
    qed
  next
    case SIGINT
    with True have "step s e = s\<lparr>exitCode := Some 0\<rparr>"
      by (simp add: h nms_onSIGINT_def)
    then show ?thesis by (rule that(9))
  qed
qed

subsection \<open>Spawns need a pending timer, timers need a publish\<close>

lemma step_budget:
  "length (children (step s e)) + length (timers (step s e))
     \<le> length (children s) + length (timers s) + publishes [e]"
  by (cases rule: step_cases [of s e])
     (simp_all add: stop_fields spawnFFmpeg_fields uncaught_fields onError_def onClose_fields)

lemma run_budget:
  "length (children (run s es)) + length (timers (run s es))
     \<le> length (children s) + length (timers s) + publishes es"
proof (induction es arbitrary: s)
  case Nil
  show ?case by (simp add: run_Nil)
next
  case (Cons e es)
  have "length (children (run (step s e) es)) + length (timers (run (step s e) es))
          \<le> length (children (step s e)) + length (timers (step s e)) + publishes es"
    by (rule Cons.IH)
  moreover have "publishes (e # es) = publishes [e] + publishes es"
    by (cases e) simp_all
  ultimately show ?case
    using step_budget [of s e] by (simp add: run_Cons)
qed

subsection \<open>The registry in a run\<close>

lemma step_mediaDir: "mediaDir (step s e) = mediaDir s"
  by (cases rule: step_cases [of s e])
     (simp_all add: stop_fields spawnFFmpeg_fields uncaught_fields onError_def onClose_fields)

lemma step_distinct:
  assumes "distinct (map fst (ffmpegProcesses s))"
  shows "distinct (map fst (ffmpegProcesses (step s e)))"
  using assms
  by (cases rule: step_cases [of s e])
     (simp_all add: stop_fields spawnFFmpeg_fields uncaught_fields onError_def onClose_fields
        AList.distinct_update AList.distinct_delete)

lemma run_distinct:
  "distinct (map fst (ffmpegProcesses s)) \<Longrightarrow> distinct (map fst (ffmpegProcesses (run s es)))"
  by (induction es arbitrary: s) (simp_all add: run_Nil run_Cons step_distinct)

lemma init_fields:
  "ffmpegProcesses (init d fs ro u) = []"
  "children (init d fs ro u) = []"
  "timers (init d fs ro u) = []"
  "stderr (init d fs ro u) = []"
  "mediaDir (init d fs ro u) = path_join [d, ''media'']"
  by (simp_all add: init_def Let_def mkdirSync_def)

lemma step_demo:
  assumes "set (timers s) \<subseteq> {''demo''}"
    and "set (map handlerKey (children s)) \<subseteq> {''demo''}"
    and "set (map fst (ffmpegProcesses s)) \<subseteq> {''demo''}"
  shows "set (timers (step s e)) \<subseteq> {''demo''}
       \<and> set (map handlerKey (children (step s e))) \<subseteq> {''demo''}
       \<and> set (map fst (ffmpegProcesses (step s e))) \<subseteq> {''demo''}"
proof (cases rule: step_cases [of s e])
  case idle
  with assms show ?thesis by simp
next
  case (publish d)
  with assms show ?thesis by simp
next
  case unpublish
  with assms show ?thesis
    by (auto simp add: stop_fields AList.delete_keys simp del: set_map)
next
  case (started k rest)
  with assms have "k = ''demo''" and "set rest \<subseteq> {''demo''}" by auto
  with started assms show ?thesis
    by (auto simp add: spawnFFmpeg_fields AList.update_keys simp del: set_map)
next
  case (made k rest)
  with assms have "k = ''demo''" and "set rest \<subseteq> {''demo''}" by auto
  with made assms show ?thesis
    by (auto simp add: spawnFFmpeg_fields AList.update_keys simp del: set_map)
next
  case (failed k rest)
  with assms have "set rest \<subseteq> {''demo''}" by auto
  with failed assms show ?thesis by (simp add: uncaught_fields del: set_map)
next
  case (error m)
  with assms show ?thesis by (simp add: onError_def)
next
  case (close p c)
  with assms show ?thesis
    by (auto simp add: onClose_fields AList.delete_keys simp del: set_map)
next
  case exit
  with assms show ?thesis by simp
qed

lemma run_demo:
  assumes "set (timers s) \<subseteq> {''demo''}"
    and "set (map handlerKey (children s)) \<subseteq> {''demo''}"
    and "set (map fst (ffmpegProcesses s)) \<subseteq> {''demo''}"
  shows "set (timers (run s es)) \<subseteq> {''demo''}
       \<and> set (map handlerKey (children (run s es))) \<subseteq> {''demo''}
       \<and> set (map fst (ffmpegProcesses (run s es))) \<subseteq> {''demo''}"
  using assms
proof (induction es arbitrary: s)
  case Nil
  then show ?case by (simp add: run_Nil)
next
  case (Cons e es)
  from step_demo [OF Cons.prems, of e] Cons.IH [of "step s e"] show ?case
    by (simp add: run_Cons del: set_map)
qed

lemma init_demo:
  "set (timers (init d fs ro u)) \<subseteq> {''demo''}"
  "set (map handlerKey (children (init d fs ro u))) \<subseteq> {''demo''}"
  "set (map fst (ffmpegProcesses (init d fs ro u))) \<subseteq> {''demo''}"
  by (simp_all add: init_fields)

subsection \<open>Signals sent in a run\<close>

lemma set_concat_update:
  "set (concat (map f (xs[p := y]))) \<subseteq> set (f y) \<union> set (concat (map f xs))"
proof -
  have "set (xs[p := y]) \<subseteq> insert y (set xs)" by (rule set_update_subset_insert)
  then show ?thesis by auto
qed

lemma set_nth_concat:
  assumes "p < length xs"
  shows "set (f (xs ! p)) \<subseteq> set (concat (map f xs))"
proof -
  from assms have "xs ! p \<in> set xs" by (rule nth_mem)
  then show ?thesis by auto
qed

lemma sent_upd [simp]:
  "sent (s\<lparr>ffmpegProcesses := r\<rparr>) = sent s"
  "sent (s\<lparr>timers := ts\<rparr>) = sent s"
  "sent (s\<lparr>stderr := e\<rparr>) = sent s"
  "sent (s\<lparr>exitCode := x\<rparr>) = sent s"
  "sent (s\<lparr>dirs := ds\<rparr>) = sent s"
  "sent (s\<lparr>uncaught := us\<rparr>) = sent s"
  by (simp_all add: sent_def)

lemma set_sent_kill: "set (sent (kill p g s)) \<subseteq> insert g (set (sent s))"
proof (cases "p < length (children s)")
  case True
  from True have c: "children (kill p g s)
      = (children s)[p := (children s ! p)\<lparr>signals := signals (children s ! p) @ [g]\<rparr>]"
    by (simp add: kill_def)
  have "set (sent (kill p g s))
      \<subseteq> set (signals ((children s ! p)\<lparr>signals := signals (children s ! p) @ [g]\<rparr>)) \<union> set (sent s)"
    unfolding sent_def c by (rule set_concat_update)
  moreover from True have "set (signals (children s ! p)) \<subseteq> set (sent s)"
    unfolding sent_def by (rule set_nth_concat)
  ultimately show ?thesis by auto
next
  case False
  then show ?thesis by (auto simp add: kill_def)
qed

lemma set_sent_onClose: "set (sent (onClose p c s)) \<subseteq> set (sent s)"
proof (cases "p < length (children s)")
  case True
  have c: "children (onClose p c s) = (children s)[p := (children s ! p)\<lparr>closed := True\<rparr>]"
    by (simp add: onClose_def)
  have "set (sent (onClose p c s))
      \<subseteq> set (signals ((children s ! p)\<lparr>closed := True\<rparr>)) \<union> set (sent s)"
    unfolding sent_def c by (rule set_concat_update)
  moreover from True have "set (signals (children s ! p)) \<subseteq> set (sent s)"
    unfolding sent_def by (rule set_nth_concat)
  ultimately show ?thesis by auto
next
  case False
  then show ?thesis by (simp add: onClose_def sent_def list_update_beyond)
qed

lemma set_sent_stop: "set (sent (stopFFmpegTranscoding k s)) \<subseteq> insert ''SIGTERM'' (set (sent s))"
proof (cases "map_of (ffmpegProcesses s) k")
  case None
  then show ?thesis by (auto simp add: stopFFmpegTranscoding_def)
next
  case (Some p)
  then show ?thesis using set_sent_kill [of p "''SIGTERM''" s]
    by (simp add: stopFFmpegTranscoding_def)
qed

lemma sent_spawnFFmpeg: "sent (spawnFFmpeg k s) = sent s"
  by (simp add: sent_def spawnFFmpeg_fields)

lemma sent_uncaught: "sent (uncaughtException e s) = sent s"
  by (simp add: sent_def uncaught_fields)

lemma set_sent_step: "set (sent (step s e)) \<subseteq> insert ''SIGTERM'' (set (sent s))"
proof (cases rule: step_cases [of s e])
  case unpublish
  then show ?thesis using set_sent_stop [of "''demo''" s] by simp
next
  case (close p c)
  then show ?thesis using set_sent_onClose [of p c s] by auto
qed (auto simp add: sent_spawnFFmpeg sent_uncaught onError_def)

lemma set_sent_run: "set (sent (run s es)) \<subseteq> insert ''SIGTERM'' (set (sent s))"
proof (induction es arbitrary: s)
  case Nil
  show ?case by (auto simp add: run_Nil)
next
  case (Cons e es)
  from Cons.IH [of "step s e"] set_sent_step [of s e] show ?case
    by (auto simp add: run_Cons)
qed

subsection \<open>What is spawned and created in a run\<close>

lemma spawned_kill: "spawned (kill p g s) = spawned s"
  by (simp add: spawned_def kill_def map_update_same)

lemma spawned_upd [simp]:
  "spawned (s\<lparr>ffmpegProcesses := r\<rparr>) = spawned s"
  "spawned (s\<lparr>timers := ts\<rparr>) = spawned s"
  "spawned (s\<lparr>stderr := e\<rparr>) = spawned s"
  "spawned (s\<lparr>exitCode := x\<rparr>) = spawned s"
  "spawned (s\<lparr>dirs := ds\<rparr>) = spawned s"
  "spawned (s\<lparr>uncaught := us\<rparr>) = spawned s"
  by (simp_all add: spawned_def)

lemma spawned_stop: "spawned (stopFFmpegTranscoding k s) = spawned s"
  by (simp add: stopFFmpegTranscoding_def spawned_kill split: option.splits)

lemma spawned_onClose: "spawned (onClose p c s) = spawned s"
  unfolding spawned_def onClose_def by (simp add: map_update_same)

lemma spawned_uncaught: "spawned (uncaughtException e s) = spawned s"
  by (simp add: spawned_def uncaught_fields)

lemma spawned_spawnFFmpeg:
  "spawned (spawnFFmpeg k s) = spawned s @ [(''ffmpeg'', ffmpegArgs s k, k)]"
  by (simp add: spawned_def spawnFFmpeg_fields)

lemma step_spawned:
  assumes "set (timers s) \<subseteq> {''demo''}"
  shows "set (spawned (step s e)) \<subseteq> insert (''ffmpeg'', ffmpegArgs s ''demo'', ''demo'') (set (spawned s))"
proof (cases rule: step_cases [of s e])
  case (started k rest)
  with assms have "k = ''demo''" by simp
  with started show ?thesis by (auto simp add: spawned_spawnFFmpeg)
next
  case (made k rest)
  with assms have "k = ''demo''" by simp
  with made show ?thesis by (auto simp add: spawned_spawnFFmpeg)
qed (auto simp add: spawned_stop spawned_onClose spawned_uncaught onError_def)

lemma run_spawned:
  assumes "set (timers s) \<subseteq> {''demo''}"
    and "set (map handlerKey (children s)) \<subseteq> {''demo''}"
    and "set (map fst (ffmpegProcesses s)) \<subseteq> {''demo''}"
  shows "set (spawned (run s es)) \<subseteq> insert (''ffmpeg'', ffmpegArgs s ''demo'', ''demo'') (set (spawned s))"
  using assms
proof (induction es arbitrary: s)
  case Nil
  show ?case by (auto simp add: run_Nil)
next
  case (Cons e es)
  note inv = step_demo [OF Cons.prems, of e]
  have a: "ffmpegArgs (step s e) ''demo'' = ffmpegArgs s ''demo''"
    by (rule ffmpegArgs_cong) (rule step_mediaDir)
  from inv have "set (spawned (run (step s e) es))
      \<subseteq> insert (''ffmpeg'', ffmpegArgs (step s e) ''demo'', ''demo'') (set (spawned (step s e)))"
    by (intro Cons.IH) blast+
  with step_spawned [OF Cons.prems(1), of e] show ?case
    unfolding a run_Cons by blast
qed

lemma step_dirs:
  assumes "set (timers s) \<subseteq> {''demo''}"
  shows "dirs (step s e) \<subseteq> dirs s \<union> set (outputDir s ''demo'' # ancestors (outputDir s ''demo''))"
proof (cases rule: step_cases [of s e])
  case (made k rest)
  with assms have "k = ''demo''" by simp
  with made show ?thesis by (auto simp add: spawnFFmpeg_fields)
qed (auto simp add: stop_fields spawnFFmpeg_fields uncaught_fields onError_def onClose_fields)

lemma run_dirs:
  assumes "set (timers s) \<subseteq> {''demo''}"
    and "set (map handlerKey (children s)) \<subseteq> {''demo''}"
    and "set (map fst (ffmpegProcesses s)) \<subseteq> {''demo''}"
  shows "dirs (run s es) \<subseteq> dirs s \<union> set (outputDir s ''demo'' # ancestors (outputDir s ''demo''))"
  using assms
proof (induction es arbitrary: s)
  case Nil
  show ?case by (auto simp add: run_Nil)
next
  case (Cons e es)
  note inv = step_demo [OF Cons.prems, of e]
  have a: "outputDir (step s e) ''demo'' = outputDir s ''demo''"
    by (rule outputDir_cong) (rule step_mediaDir)
  from inv have "dirs (run (step s e) es)
      \<subseteq> dirs (step s e) \<union> set (outputDir (step s e) ''demo'' # ancestors (outputDir (step s e) ''demo''))"
    by (intro Cons.IH) blast+
  with step_dirs [OF Cons.prems(1), of e] show ?case
    unfolding a run_Cons by blast
qed

subsection \<open>Single events\<close>

lemma step_close:
  assumes "exitCode s = None" and "p < length (children s)"
  shows "step s (ChildClose p code) = onClose p code s"
  using assms by (simp add: step_def)

lemma step_error:
  assumes "exitCode s = None" and "p < length (children s)"
  shows "step s (ChildError p m) = onError m s"
  using assms by (simp add: step_def)

lemma step_StartTimer:
  assumes "exitCode s = None" and "timers s = k # rest"
    and "existsSync s (outputDir s k) \<or> outputDir s k \<notin> unwritable s"
  shows "spawned (step s StartTimer) = spawned s @ [(''ffmpeg'', ffmpegArgs s k, k)]"
    and "children (step s StartTimer) = children s @
           [\<lparr>command = ''ffmpeg'', args = ffmpegArgs s k, handlerKey = k, signals = [], closed = False\<rparr>]"
    and "ffmpegProcesses (step s StartTimer) = AList.update k (length (children s)) (ffmpegProcesses s)"
    and "timers (step s StartTimer) = rest"
  using assms
  by (auto simp add: step_def start_simp existsSync_def spawned_spawnFFmpeg spawnFFmpeg_fields)

lemma step_publish_unpublish:
  assumes "exitCode s = None"
  shows "run s [PostPublish a, DonePublish b] = stopFFmpegTranscoding ''demo'' (s\<lparr>timers := timers s @ [''demo'']\<rparr>)"
  using assms by (simp add: run_Cons run_Nil step_def postPublish_def donePublish_def)

lemma stop_idle: "map_of (ffmpegProcesses s) k = None \<Longrightarrow> stopFFmpegTranscoding k s = s"
  by (simp add: stopFFmpegTranscoding_def)

text \<open>A start whose directory cannot be made: the exception is recorded, nothing is spawned.\<close>

lemma failed_start_spawns_nothing:
  "children (run (init ''/app'' {} {''/app/media/live/demo''} True) [PostPublish ''demo'', StartTimer]) = []
   \<and> uncaught (run (init ''/app'' {} {''/app/media/live/demo''} True) [PostPublish ''demo'', StartTimer])
        = [MkdirError ''/app/media/live/demo'']
   \<and> ffmpegProcesses (run (init ''/app'' {} {''/app/media/live/demo''} True) [PostPublish ''demo'', StartTimer]) = []"
  by code_simp

section \<open>The claims\<close>

text \<open>
  C1, as stated, fails. Two publish notifications, each followed by the expiry of its
  start timer: both processes are live, and the registry entry, which held the first
  handle, now holds the second.
\<close>

theorem duplicate_publish_two_live_jobs:
  "liveJobs ''demo'' (run (init ''/app'' {} {} True)
      [PostPublish ''demo'', StartTimer, PostPublish ''demo'', StartTimer]) = [0, 1]
   \<and> ffmpegProcesses (run (init ''/app'' {} {} True)
      [PostPublish ''demo'', StartTimer, PostPublish ''demo'', StartTimer]) = [(''demo'', 1)]
   \<and> ffmpegProcesses (run (init ''/app'' {} {} True) [PostPublish ''demo'', StartTimer]) = [(''demo'', 0)]"
  by code_simp

text \<open>
  C1, amended. In every run the registry holds at most one entry per key. A publish
  notification is never ignored: with no other start pending, once its timer expires and
  the output directory exists or can be made, a new process is spawned next to all
  earlier ones, which are left as they were, and the registry entry for the key is the
  new handle, whether or not it held one before.
\<close>

theorem one_entry_per_key_duplicate_publish_spawns:
  assumes "exitCode s = None" and "timers s = []"
    and "existsSync s (outputDir s ''demo'') \<or> outputDir s ''demo'' \<notin> unwritable s"
  shows "distinct (map fst (ffmpegProcesses (run (init dirname fs ro catches) es)))
       \<and> children (run s [PostPublish a, StartTimer]) = children s @
            [\<lparr>command = ''ffmpeg'', args = ffmpegArgs s ''demo'', handlerKey = ''demo'',
              signals = [], closed = False\<rparr>]
       \<and> map_of (ffmpegProcesses (run s [PostPublish a, StartTimer])) ''demo''
            = Some (length (children s))"
proof -
  have "distinct (map fst (ffmpegProcesses (init dirname fs ro catches)))"
    by (simp add: init_fields)
  then have 1: "distinct (map fst (ffmpegProcesses (run (init dirname fs ro catches) es)))"
    by (rule run_distinct)
  define t where "t = s\<lparr>timers := [''demo'']\<rparr>"
  have p: "step s (PostPublish a) = t"
    using assms(1,2) by (simp add: step_def postPublish_def t_def)
  have ft: "exitCode t = None" "timers t = [''demo'']"
    "existsSync t (outputDir t ''demo'') \<or> outputDir t ''demo'' \<notin> unwritable t"
    "children t = children s" "ffmpegProcesses t = ffmpegProcesses s"
    "ffmpegArgs t ''demo'' = ffmpegArgs s ''demo''"
    using assms by (simp_all add: t_def existsSync_def)
  have r: "run s [PostPublish a, StartTimer] = step t StartTimer"
    by (simp only: run_Cons run_Nil p)
  have 2: "children (run s [PostPublish a, StartTimer]) = children s @
            [\<lparr>command = ''ffmpeg'', args = ffmpegArgs s ''demo'', handlerKey = ''demo'',
              signals = [], closed = False\<rparr>]"
    unfolding r using step_StartTimer(2) [OF ft(1,2,3)] by (simp only: ft)
  have 3: "map_of (ffmpegProcesses (run s [PostPublish a, StartTimer])) ''demo''
            = Some (length (children s))"
    unfolding r using step_StartTimer(3) [OF ft(1,2,3)] by (simp add: ft AList.update_conv')
  from 1 2 3 show ?thesis by (intro conjI)
qed

text \<open>The same at a state where a job for the key is live and registered.\<close>

theorem one_entry_per_key_duplicate_publish_spawns_witness:
  "exitCode (run (init ''/app'' {} {} True) [PostPublish ''demo'', StartTimer]) = None
   \<and> timers (run (init ''/app'' {} {} True) [PostPublish ''demo'', StartTimer]) = []
   \<and> existsSync (run (init ''/app'' {} {} True) [PostPublish ''demo'', StartTimer])
        (outputDir (run (init ''/app'' {} {} True) [PostPublish ''demo'', StartTimer]) ''demo'')
   \<and> liveJobs ''demo'' (run (init ''/app'' {} {} True) [PostPublish ''demo'', StartTimer]) = [0]
   \<and> map_of (ffmpegProcesses (run (init ''/app'' {} {} True) [PostPublish ''demo'', StartTimer])) ''demo''
        = Some 0
   \<and> map_of (ffmpegProcesses (run (run (init ''/app'' {} {} True) [PostPublish ''demo'', StartTimer])
        [PostPublish ''demo'', StartTimer])) ''demo'' = Some 1"
proof -
  let ?s = "run (init ''/app'' {} {} True) [PostPublish ''demo'', StartTimer]"
  have h1: "exitCode ?s = None" by code_simp
  have h2: "timers ?s = []" by code_simp
  have x: "existsSync ?s (outputDir ?s ''demo'')" by code_simp
  then have h3: "existsSync ?s (outputDir ?s ''demo'') \<or> outputDir ?s ''demo'' \<notin> unwritable ?s"
    by (rule disjI1)
  have l: "liveJobs ''demo'' ?s = [0]" by code_simp
  have r: "map_of (ffmpegProcesses ?s) ''demo'' = Some 0" by code_simp
  have n: "length (children ?s) = 1" by code_simp
  have "map_of (ffmpegProcesses (run ?s [PostPublish ''demo'', StartTimer])) ''demo''
          = Some (length (children ?s))"
    by (rule conjunct2 [OF conjunct2 [OF one_entry_per_key_duplicate_publish_spawns [OF h1 h2 h3]]])
  then have c: "map_of (ffmpegProcesses (run ?s [PostPublish ''demo'', StartTimer])) ''demo'' = Some 1"
    unfolding n .
  show ?thesis by (rule conjI [OF h1 conjI [OF h2 conjI [OF x conjI [OF l conjI [OF r c]]]]])
qed

text \<open>
  C2, as stated, fails. A publish of the stream \<open>cam1\<close>: the job that is started is
  registered under \<open>demo\<close> and writes its playlist into the directory of \<open>demo\<close>;
  nothing is registered under \<open>cam1\<close>.
\<close>

theorem publish_cam1_starts_demo:
  "map_of (ffmpegProcesses (run (init ''/app'' {} {} True) [PostPublish ''cam1'', StartTimer])) ''cam1'' = None
   \<and> map_of (ffmpegProcesses (run (init ''/app'' {} {} True) [PostPublish ''cam1'', StartTimer])) ''demo''
        = Some 0
   \<and> handlerKey (children (run (init ''/app'' {} {} True) [PostPublish ''cam1'', StartTimer]) ! 0) = ''demo''
   \<and> last (args (children (run (init ''/app'' {} {} True) [PostPublish ''cam1'', StartTimer]) ! 0))
        = ''/app/media/live/demo/index.m3u8''"
  by code_simp

text \<open>
  C2, amended. In every run, whatever identifiers the publish notifications carry, every
  registry key is \<open>demo\<close> and every process spawned is \<open>ffmpeg\<close> with the
  arguments built for \<open>demo\<close> and a \<open>close\<close> listener that has captured
  \<open>demo\<close>; the last of these arguments, the playlist, lies in the output directory of
  \<open>demo\<close> under the media directory.
\<close>

theorem every_job_is_demo:
  "set (map fst (ffmpegProcesses (run (init dirname fs ro catches) es))) \<subseteq> {''demo''}
   \<and> set (spawned (run (init dirname fs ro catches) es))
        \<subseteq> {(''ffmpeg'', ffmpegArgs (init dirname fs ro catches) ''demo'', ''demo'')}
   \<and> last (ffmpegArgs (init dirname fs ro catches) ''demo'')
        = path_join [path_join [path_join [dirname, ''media''], ''live'', ''demo''], ''index.m3u8'']"
proof -
  have "set (map fst (ffmpegProcesses (run (init dirname fs ro catches) es))) \<subseteq> {''demo''}"
    using run_demo [of "init dirname fs ro catches" es, OF init_demo] by blast
  moreover have "set (spawned (run (init dirname fs ro catches) es))
        \<subseteq> {(''ffmpeg'', ffmpegArgs (init dirname fs ro catches) ''demo'', ''demo'')}"
    using run_spawned [of "init dirname fs ro catches" es, OF init_demo]
    by (simp add: spawned_def init_fields)
  moreover have "last (ffmpegArgs (init dirname fs ro catches) ''demo'')
        = path_join [path_join [path_join [dirname, ''media''], ''live'', ''demo''], ''index.m3u8'']"
    by (simp add: ffmpegArgs_def outputDir_def init_fields)
  ultimately show ?thesis by (intro conjI)
qed

text \<open>
  C3, as stated, fails. A publish followed at once by an unpublish: the start timer is
  still pending after the unpublish, and when it expires the process is spawned and
  registered.
\<close>

theorem unpublish_leaves_start_pending:
  "timers (run (init ''/app'' {} {} True) [PostPublish ''demo'', DonePublish ''demo'']) = [''demo'']
   \<and> length (children (run (init ''/app'' {} {} True) [PostPublish ''demo'', DonePublish ''demo''])) = 0
   \<and> length (children (run (init ''/app'' {} {} True)
        [PostPublish ''demo'', DonePublish ''demo'', StartTimer])) = 1
   \<and> liveJobs ''demo'' (run (init ''/app'' {} {} True)
        [PostPublish ''demo'', DonePublish ''demo'', StartTimer]) = [0]
   \<and> ffmpegProcesses (run (init ''/app'' {} {} True)
        [PostPublish ''demo'', DonePublish ''demo'', StartTimer]) = [(''demo'', 0)]"
  by code_simp

text \<open>
  C3, amended. While the service runs with no other start pending, a publish followed by
  an unpublish does not cancel the start: the unpublish does what a stop request for
  \<open>demo\<close> does, which is nothing when no job is registered under \<open>demo\<close>; the start
  timer of the publish stays pending and nothing is spawned yet. When the timer expires
  and the output directory exists or can be made, the process is spawned, with the
  arguments built for \<open>demo\<close>, and registered.
\<close>

theorem unpublish_before_start_still_spawns:
  assumes "exitCode s = None" and "timers s = []"
    and "existsSync s (outputDir s ''demo'') \<or> outputDir s ''demo'' \<notin> unwritable s"
  shows "run s [PostPublish a, DonePublish b]
           = stopFFmpegTranscoding ''demo'' (s\<lparr>timers := [''demo'']\<rparr>)
       \<and> (map_of (ffmpegProcesses s) ''demo'' = None
            \<longrightarrow> run s [PostPublish a, DonePublish b] = s\<lparr>timers := [''demo'']\<rparr>)
       \<and> timers (run s [PostPublish a, DonePublish b]) = [''demo'']
       \<and> spawned (run s [PostPublish a, DonePublish b]) = spawned s
       \<and> spawned (run s [PostPublish a, DonePublish b, StartTimer])
           = spawned s @ [(''ffmpeg'', ffmpegArgs s ''demo'', ''demo'')]
       \<and> map_of (ffmpegProcesses (run s [PostPublish a, DonePublish b, StartTimer])) ''demo''
           = Some (length (children s))"
proof -
  define t where "t = stopFFmpegTranscoding ''demo'' (s\<lparr>timers := [''demo'']\<rparr>)"
  have 1: "run s [PostPublish a, DonePublish b] = t"
    using step_publish_unpublish [OF assms(1), of a b] assms(2) by (simp add: t_def)
  have 2: "map_of (ffmpegProcesses s) ''demo'' = None
            \<longrightarrow> run s [PostPublish a, DonePublish b] = s\<lparr>timers := [''demo'']\<rparr>"
    unfolding 1 t_def by (simp add: stop_idle)
  have m: "mediaDir t = mediaDir s" by (simp add: t_def stop_fields)
  have oa: "outputDir t ''demo'' = outputDir s ''demo''" using m by (rule outputDir_cong)
  have fa: "ffmpegArgs t ''demo'' = ffmpegArgs s ''demo''" using m by (rule ffmpegArgs_cong)
  have du: "dirs t = dirs s" "unwritable t = unwritable s" by (simp_all add: t_def stop_fields)
  have ft: "exitCode t = None" "timers t = [''demo'']"
    "existsSync t (outputDir t ''demo'') \<or> outputDir t ''demo'' \<notin> unwritable t"
    "length (children t) = length (children s)"
    "ffmpegArgs t ''demo'' = ffmpegArgs s ''demo''"
    using assms by (simp_all add: oa fa du existsSync_def) (simp_all add: t_def stop_fields)
  have 3: "timers (run s [PostPublish a, DonePublish b]) = [''demo'']"
    unfolding 1 by (rule ft)
  have st: "spawned t = spawned s"
    by (simp add: t_def spawned_stop)
  have 4: "spawned (run s [PostPublish a, DonePublish b]) = spawned s"
    unfolding 1 by (rule st)
  have "run s ([PostPublish a, DonePublish b] @ [StartTimer])
          = run (run s [PostPublish a, DonePublish b]) [StartTimer]"
    by (rule run_append)
  also have "\<dots> = step t StartTimer"
    unfolding 1 by (simp only: run_Cons run_Nil)
  finally have r: "run s [PostPublish a, DonePublish b, StartTimer] = step t StartTimer"
    by simp
  have 5: "spawned (run s [PostPublish a, DonePublish b, StartTimer])
           = spawned s @ [(''ffmpeg'', ffmpegArgs s ''demo'', ''demo'')]"
    unfolding r using step_StartTimer(1) [OF ft(1,2,3)] by (simp only: ft st)
  have 6: "map_of (ffmpegProcesses (run s [PostPublish a, DonePublish b, StartTimer])) ''demo''
           = Some (length (children s))"
    unfolding r using step_StartTimer(3) [OF ft(1,2,3)] by (simp add: ft AList.update_conv')
  from 1 2 3 4 5 6 show ?thesis unfolding t_def by (intro conjI)
qed

text \<open>The same from the initial state, where no job is registered.\<close>

theorem unpublish_before_start_still_spawns_witness:
  "exitCode (init ''/app'' {} {} True) = None
   \<and> timers (init ''/app'' {} {} True) = []
   \<and> outputDir (init ''/app'' {} {} True) ''demo'' \<notin> unwritable (init ''/app'' {} {} True)
   \<and> map_of (ffmpegProcesses (init ''/app'' {} {} True)) ''demo'' = None
   \<and> timers (run (init ''/app'' {} {} True) [PostPublish ''demo'', DonePublish ''demo'']) = [''demo'']
   \<and> map_of (ffmpegProcesses (run (init ''/app'' {} {} True)
        [PostPublish ''demo'', DonePublish ''demo'', StartTimer])) ''demo'' = Some 0"
proof -
  let ?s = "init ''/app'' {} {} True"
  have h1: "exitCode ?s = None" by code_simp
  have h2: "timers ?s = []" by code_simp
  have x: "outputDir ?s ''demo'' \<notin> unwritable ?s" by code_simp
  then have h3: "existsSync ?s (outputDir ?s ''demo'') \<or> outputDir ?s ''demo'' \<notin> unwritable ?s"
    by (rule disjI2)
  have i: "map_of (ffmpegProcesses ?s) ''demo'' = None" by code_simp
  have n: "length (children ?s) = 0" by code_simp
  note t = unpublish_before_start_still_spawns [OF h1 h2 h3, of "''demo''" "''demo''"]
  have a: "timers (run ?s [PostPublish ''demo'', DonePublish ''demo'']) = [''demo'']"
    by (rule conjunct1 [OF conjunct2 [OF conjunct2 [OF t]]])
  have "map_of (ffmpegProcesses (run ?s [PostPublish ''demo'', DonePublish ''demo'', StartTimer])) ''demo''
          = Some (length (children ?s))"
    by (rule conjunct2 [OF conjunct2 [OF conjunct2 [OF conjunct2 [OF conjunct2 [OF t]]]]])
  then have c: "map_of (ffmpegProcesses (run ?s [PostPublish ''demo'', DonePublish ''demo'', StartTimer])) ''demo''
          = Some 0"
    unfolding n .
  show ?thesis by (rule conjI [OF h1 conjI [OF h2 conjI [OF x conjI [OF i conjI [OF a c]]]]])
qed

text \<open>
  C4, as stated, fails. With one job running, the interrupt signal arrives: the service
  has exited with code 0 while the job is live, its \<open>close\<close> not emitted.
\<close>

theorem sigint_exits_with_job_live:
  "exitCode (run (init ''/app'' {} {} True) [PostPublish ''demo'', StartTimer, SIGINT]) = Some 0
   \<and> liveJobs ''demo'' (run (init ''/app'' {} {} True) [PostPublish ''demo'', StartTimer, SIGINT]) = [0]
   \<and> closed (children (run (init ''/app'' {} {} True) [PostPublish ''demo'', StartTimer, SIGINT]) ! 0)
        = False"
  by code_simp

text \<open>
  C4, amended. When the interrupt signal arrives while the service runs, the service
  exits with code 0 in the handling of that signal: no child is closed by then that was
  not closed before, and no later event is handled. The source's own listener ends the
  same way, with exit code 0 and no child closed, as soon as its loop is done.
\<close>

theorem sigint_exits_at_once:
  assumes "exitCode s = None"
  shows "exitCode (step s SIGINT) = Some 0
       \<and> map closed (children (step s SIGINT)) = map closed (children s)
       \<and> run (step s SIGINT) es = step s SIGINT
       \<and> exitCode (onSIGINT s) = Some 0
       \<and> map closed (children (onSIGINT s)) = map closed (children s)"
proof -
  from assms have t: "step s SIGINT = s\<lparr>exitCode := Some 0\<rparr>"
    by (simp add: step_def nms_onSIGINT_def)
  have 1: "exitCode (step s SIGINT) = Some 0" by (simp add: t)
  have 2: "map closed (children (step s SIGINT)) = map closed (children s)" by (simp add: t)
  from 1 have 3: "run (step s SIGINT) es = step s SIGINT"
    by (intro run_exited) simp
  note 4 = onSIGINT_fields(1) [of s] and 5 = onSIGINT_fields(2) [of s]
  from 1 2 3 4 5 show ?thesis by (intro conjI)
qed

text \<open>The same at a concrete run with one registered job.\<close>

theorem sigint_exits_at_once_witness:
  "exitCode (run (init ''/app'' {} {} True) [PostPublish ''demo'', StartTimer]) = None
   \<and> liveJobs ''demo'' (run (init ''/app'' {} {} True) [PostPublish ''demo'', StartTimer]) = [0]
   \<and> exitCode (step (run (init ''/app'' {} {} True) [PostPublish ''demo'', StartTimer]) SIGINT) = Some 0
   \<and> run (step (run (init ''/app'' {} {} True) [PostPublish ''demo'', StartTimer]) SIGINT)
        [ChildClose 0 None]
        = step (run (init ''/app'' {} {} True) [PostPublish ''demo'', StartTimer]) SIGINT"
proof -
  let ?s = "run (init ''/app'' {} {} True) [PostPublish ''demo'', StartTimer]"
  have h1: "exitCode ?s = None" by code_simp
  have l: "liveJobs ''demo'' ?s = [0]" by code_simp
  note t = sigint_exits_at_once [OF h1, of "[ChildClose 0 None]"]
  have a: "exitCode (step ?s SIGINT) = Some 0"
    by (rule conjunct1 [OF t])
  have b: "run (step ?s SIGINT) [ChildClose 0 None] = step ?s SIGINT"
    by (rule conjunct1 [OF conjunct2 [OF conjunct2 [OF t]]])
  show ?thesis by (rule conjI [OF h1 conjI [OF l conjI [OF a b]]])
qed

text \<open>
  C5, as stated, fails. A publish whose identifier is \<open>../../../etc\<close>, or empty, is not
  rejected: the output directory is created and a process is spawned. The key
  \<open>../../../etc\<close>, given to the path construction of \<open>startFFmpegTranscoding\<close>,
  yields \<open>/etc\<close>, outside the media directory \<open>/app/media\<close>.
\<close>

theorem malformed_identifier_not_rejected:
  "length (children (run (init ''/app'' {} {} True) [PostPublish ''../../../etc'', StartTimer])) = 1
   \<and> existsSync (run (init ''/app'' {} {} True) [PostPublish ''../../../etc'', StartTimer])
        ''/app/media/live/demo''
   \<and> length (children (run (init ''/app'' {} {} True) [PostPublish [], StartTimer])) = 1
   \<and> outputDir (init ''/app'' {} {} True) ''../../../etc'' = ''/etc''"
  by code_simp

text \<open>
  C5, amended. The identifier a notification carries is neither checked nor used: the
  listeners do the same for any two identifiers. In every run the paths that exist are
  those there were at the start, the media directory, the output directory of
  \<open>demo\<close> and their parents, and every process spawned is the one built for
  \<open>demo\<close>. \<open>startFFmpegTranscoding\<close> itself checks nothing about the key it is
  given: it throws only when the output directory built from the key is missing and
  cannot be made, and otherwise spawns with the arguments built from the key.
\<close>

theorem identifier_never_checked_nor_used:
  "step s (PostPublish a) = step s (PostPublish b)
   \<and> step s (DonePublish a) = step s (DonePublish b)
   \<and> dirs (run (init dirname fs ro catches) es)
        \<subseteq> fs \<union> set (mediaDir (init dirname fs ro catches)
                        # ancestors (mediaDir (init dirname fs ro catches)))
             \<union> set (outputDir (init dirname fs ro catches) ''demo''
                        # ancestors (outputDir (init dirname fs ro catches) ''demo''))
   \<and> set (spawned (run (init dirname fs ro catches) es))
        \<subseteq> {(''ffmpeg'', ffmpegArgs (init dirname fs ro catches) ''demo'', ''demo'')}
   \<and> map_sum id spawned (startFFmpegTranscoding k s) =
        (if \<not> existsSync s (outputDir s k) \<and> outputDir s k \<in> unwritable s
         then Inl (MkdirError (outputDir s k))
         else Inr (spawned s @ [(''ffmpeg'', ffmpegArgs s k, k)]))"
proof -
  have 1: "step s (PostPublish a) = step s (PostPublish b)"
    by (simp add: step_def postPublish_def)
  have 2: "step s (DonePublish a) = step s (DonePublish b)"
    by (simp add: step_def donePublish_def)
  have "dirs (init dirname fs ro catches)
      \<subseteq> fs \<union> set (mediaDir (init dirname fs ro catches)
                      # ancestors (mediaDir (init dirname fs ro catches)))"
    by (auto simp add: init_def Let_def mkdirSync_def existsSync_def)
  with run_dirs [of "init dirname fs ro catches" es, OF init_demo]
  have 3: "dirs (run (init dirname fs ro catches) es)
        \<subseteq> fs \<union> set (mediaDir (init dirname fs ro catches)
                        # ancestors (mediaDir (init dirname fs ro catches)))
             \<union> set (outputDir (init dirname fs ro catches) ''demo''
                        # ancestors (outputDir (init dirname fs ro catches) ''demo''))"
    by blast
  have 4: "set (spawned (run (init dirname fs ro catches) es))
        \<subseteq> {(''ffmpeg'', ffmpegArgs (init dirname fs ro catches) ''demo'', ''demo'')}"
    using run_spawned [of "init dirname fs ro catches" es, OF init_demo]
    by (simp add: spawned_def init_fields)
  have 5: "map_sum id spawned (startFFmpegTranscoding k s) =
        (if \<not> existsSync s (outputDir s k) \<and> outputDir s k \<in> unwritable s
         then Inl (MkdirError (outputDir s k))
         else Inr (spawned s @ [(''ffmpeg'', ffmpegArgs s k, k)]))"
    by (simp add: start_simp spawned_spawnFFmpeg)
  from 1 2 3 4 5 show ?thesis by (intro conjI)
qed

text \<open>
  C6. When the \<open>close\<close> event of a spawned child arrives while the service runs,
  whatever the exit code (\<open>None\<close> for a process ended by a signal), the registry has
  no entry for that child's key afterwards; the listener spawns nothing and sets no timer,
  and in any continuation the number of processes ever spawned is bounded by the processes
  and pending start timers there were before plus the publish notifications that follow:
  nothing is restarted on its own.
\<close>

theorem close_returns_stream_to_idle:
  assumes "exitCode s = None" and "p < length (children s)"
  shows "map_of (ffmpegProcesses (step s (ChildClose p code))) (handlerKey (children s ! p)) = None
       \<and> closed (children (step s (ChildClose p code)) ! p)
       \<and> spawned (step s (ChildClose p code)) = spawned s
       \<and> timers (step s (ChildClose p code)) = timers s
       \<and> length (children (run (step s (ChildClose p code)) es))
            \<le> length (children s) + length (timers s) + publishes es"
proof -
  let ?t = "step s (ChildClose p code)"
  have t: "?t = onClose p code s" using assms by (rule step_close)
  have "map_of (ffmpegProcesses ?t) (handlerKey (children s ! p)) = None"
    by (simp add: t onClose_fields AList.delete_conv')
  moreover have "closed (children ?t ! p)"
    using assms(2) by (simp add: t onClose_def)
  moreover have "spawned ?t = spawned s"
    unfolding t spawned_def onClose_def by (simp add: map_update_same)
  moreover have "timers ?t = timers s"
    by (simp add: t onClose_fields)
  moreover have "length (children (run ?t es)) \<le> length (children s) + length (timers s) + publishes es"
    using run_budget [of ?t es] by (simp add: t onClose_fields)
  ultimately show ?thesis by blast
qed

text \<open>The same at a concrete run: one publish, its job started, then killed (code 137).\<close>

theorem close_returns_stream_to_idle_witness:
  "exitCode (run (init ''/app'' {} {} True) [PostPublish ''cam1'', StartTimer]) = None
   \<and> 0 < length (children (run (init ''/app'' {} {} True) [PostPublish ''cam1'', StartTimer]))
   \<and> map_of (ffmpegProcesses (step (run (init ''/app'' {} {} True) [PostPublish ''cam1'', StartTimer])
         (ChildClose 0 (Some 137)))) ''demo'' = None"
proof -
  let ?s = "run (init ''/app'' {} {} True) [PostPublish ''cam1'', StartTimer]"
  have h1: "exitCode ?s = None" by code_simp
  have h2: "0 < length (children ?s)" by code_simp
  have k: "handlerKey (children ?s ! 0) = ''demo''" by code_simp
  have "map_of (ffmpegProcesses (step ?s (ChildClose 0 (Some 137)))) (handlerKey (children ?s ! 0)) = None"
    by (rule conjunct1 [OF close_returns_stream_to_idle [OF h1 h2]])
  then have c: "map_of (ffmpegProcesses (step ?s (ChildClose 0 (Some 137)))) ''demo'' = None"
    unfolding k .
  show ?thesis by (rule conjI [OF h1 conjI [OF h2 c]])
qed

text \<open>
  C7, as stated, fails. A job is started and then stopped by an unpublish. The job has
  been sent \<open>SIGTERM\<close> and has not closed; no timer is pending that could escalate,
  and the registry no longer has the handle that a later \<open>kill\<close> would need.
\<close>

theorem stop_never_escalates:
  "signals (children (run (init ''/app'' {} {} True) [PostPublish ''demo'', StartTimer, DonePublish ''demo'']) ! 0)
        = [''SIGTERM'']
   \<and> closed (children (run (init ''/app'' {} {} True) [PostPublish ''demo'', StartTimer, DonePublish ''demo'']) ! 0)
        = False
   \<and> timers (run (init ''/app'' {} {} True) [PostPublish ''demo'', StartTimer, DonePublish ''demo'']) = []
   \<and> ffmpegProcesses (run (init ''/app'' {} {} True) [PostPublish ''demo'', StartTimer, DonePublish ''demo'']) = []"
  by code_simp

text \<open>
  C7, amended. Stopping a registered job sends it one \<open>SIGTERM\<close>, sets no timer and
  removes the job from the registry at once. In every run, the only signal the server
  ever asks to send to a child is \<open>SIGTERM\<close>: there is no forceful termination.
\<close>

theorem stop_sends_one_sigterm_only:
  assumes "map_of (ffmpegProcesses s) k = Some p" and "p < length (children s)"
  shows "signals (children (stopFFmpegTranscoding k s) ! p) = signals (children s ! p) @ [''SIGTERM'']
       \<and> timers (stopFFmpegTranscoding k s) = timers s
       \<and> map_of (ffmpegProcesses (stopFFmpegTranscoding k s)) k = None
       \<and> set (sent (run (init dirname fs ro catches) es)) \<subseteq> {''SIGTERM''}"
proof -
  have 1: "signals (children (stopFFmpegTranscoding k s) ! p) = signals (children s ! p) @ [''SIGTERM'']"
    using assms by (simp add: stopFFmpegTranscoding_def kill_child)
  have 2: "timers (stopFFmpegTranscoding k s) = timers s"
    by (rule stop_fields)
  have 3: "map_of (ffmpegProcesses (stopFFmpegTranscoding k s)) k = None"
    by (simp add: stop_fields AList.delete_conv')
  have "sent (init dirname fs ro catches) = []"
    by (simp add: sent_def init_fields)
  with set_sent_run [of "init dirname fs ro catches" es]
  have 4: "set (sent (run (init dirname fs ro catches) es)) \<subseteq> {''SIGTERM''}" by simp
  from 1 2 3 4 show ?thesis by (intro conjI)
qed

text \<open>The same at a concrete state with one registered job.\<close>

theorem stop_sends_one_sigterm_only_witness:
  "map_of (ffmpegProcesses (run (init ''/app'' {} {} True) [PostPublish ''demo'', StartTimer])) ''demo'' = Some 0
   \<and> 0 < length (children (run (init ''/app'' {} {} True) [PostPublish ''demo'', StartTimer]))
   \<and> signals (children (stopFFmpegTranscoding ''demo''
        (run (init ''/app'' {} {} True) [PostPublish ''demo'', StartTimer])) ! 0) = [''SIGTERM'']"
proof -
  let ?s = "run (init ''/app'' {} {} True) [PostPublish ''demo'', StartTimer]"
  have h1: "map_of (ffmpegProcesses ?s) ''demo'' = Some 0" by code_simp
  have h2: "0 < length (children ?s)" by code_simp
  have g: "signals (children ?s ! 0) @ [''SIGTERM''] = [''SIGTERM'']" by code_simp
  note t = stop_sends_one_sigterm_only [OF h1 h2, of "''/app''" "{}" "{}" True "[]"]
  have a: "signals (children (stopFFmpegTranscoding ''demo'' ?s) ! 0) = [''SIGTERM'']"
    by (rule conjunct1 [OF t [unfolded g]])
  show ?thesis by (rule conjI [OF h1 conjI [OF h2 a]])
qed

text \<open>
  C8. A launch that fails reaches the server as the \<open>error\<close> event of the child that
  \<open>spawn\<close> returned, followed by that child's \<open>close\<close> event (Node emits
  \<open>close\<close> after \<open>error\<close> when the child failed to spawn). The \<open>error\<close>
  listener writes the message to the error console and changes nothing else. Once both
  events are handled, the message is on the console, the registry has no entry for the
  child's key, nothing was spawned and no timer was set; and in any continuation the
  processes ever spawned are bounded by those and the pending start timers there were
  before plus the publish notifications that follow, so the launch is not retried.
\<close>

theorem failed_launch_surfaced_and_aborted:
  assumes "exitCode s = None" and "p < length (children s)"
  shows "step s (ChildError p m) = s\<lparr>stderr := stderr s @ [''FFmpeg Error: '' @ m]\<rparr>
       \<and> stderr (run s [ChildError p m, ChildClose p code]) = stderr s @ [''FFmpeg Error: '' @ m]
       \<and> map_of (ffmpegProcesses (run s [ChildError p m, ChildClose p code]))
            (handlerKey (children s ! p)) = None
       \<and> spawned (run s [ChildError p m, ChildClose p code]) = spawned s
       \<and> timers (run s [ChildError p m, ChildClose p code]) = timers s
       \<and> length (children (run s ([ChildError p m, ChildClose p code] @ es)))
            \<le> length (children s) + length (timers s) + publishes es"
proof -
  define msg where "msg = ''FFmpeg Error: '' @ m"
  define e where "e = s\<lparr>stderr := stderr s @ [msg]\<rparr>"
  have e: "step s (ChildError p m) = e"
    using assms by (simp add: step_error onError_def e_def msg_def)
  have "exitCode e = None" and "p < length (children e)"
    using assms by (simp_all add: e_def)
  then have c: "step e (ChildClose p code) = onClose p code e"
    by (rule step_close)
  have r: "run s [ChildError p m, ChildClose p code] = onClose p code e"
    by (simp only: run_Cons run_Nil e c)
  have f: "children e = children s" "timers e = timers s" "ffmpegProcesses e = ffmpegProcesses s"
    "stderr e = stderr s @ [msg]"
    by (simp_all add: e_def)
  have 1: "stderr (run s [ChildError p m, ChildClose p code]) = stderr s @ [msg]"
    by (simp add: r onClose_fields f)
  have 2: "map_of (ffmpegProcesses (run s [ChildError p m, ChildClose p code]))
            (handlerKey (children s ! p)) = None"
    by (simp add: r onClose_fields f AList.delete_conv')
  have 3: "spawned (run s [ChildError p m, ChildClose p code]) = spawned s"
    unfolding r spawned_def onClose_def by (simp add: map_update_same f)
  have 4: "timers (run s [ChildError p m, ChildClose p code]) = timers s"
    by (simp add: r onClose_fields f)
  have "length (children (run (onClose p code e) es)) + length (timers (run (onClose p code e) es))
          \<le> length (children s) + length (timers s) + publishes es"
    using run_budget [of "onClose p code e" es] by (simp add: onClose_fields f)
  moreover have "run s ([ChildError p m, ChildClose p code] @ es) = run (onClose p code e) es"
    by (simp only: run_append r)
  ultimately have 5: "length (children (run s ([ChildError p m, ChildClose p code] @ es)))
            \<le> length (children s) + length (timers s) + publishes es"
    by simp
  from e 1 2 3 4 5 show ?thesis
    unfolding e_def msg_def by (intro conjI)
qed

text \<open>The same at a concrete run: a publish whose \<open>ffmpeg\<close> executable is missing.\<close>

theorem failed_launch_surfaced_and_aborted_witness:
  "exitCode (run (init ''/app'' {} {} True) [PostPublish ''demo'', StartTimer]) = None
   \<and> 0 < length (children (run (init ''/app'' {} {} True) [PostPublish ''demo'', StartTimer]))
   \<and> map_of (ffmpegProcesses (run (init ''/app'' {} {} True) [PostPublish ''demo'', StartTimer])) ''demo'' = Some 0
   \<and> stderr (run (run (init ''/app'' {} {} True) [PostPublish ''demo'', StartTimer])
        [ChildError 0 ''spawn ffmpeg ENOENT'', ChildClose 0 (Some (- 2))])
        = [''FFmpeg Error: spawn ffmpeg ENOENT'']
   \<and> map_of (ffmpegProcesses (run (run (init ''/app'' {} {} True) [PostPublish ''demo'', StartTimer])
        [ChildError 0 ''spawn ffmpeg ENOENT'', ChildClose 0 (Some (- 2))])) ''demo'' = None"
proof -
  let ?s = "run (init ''/app'' {} {} True) [PostPublish ''demo'', StartTimer]"
  have h1: "exitCode ?s = None" by code_simp
  have h2: "0 < length (children ?s)" by code_simp
  have k: "handlerKey (children ?s ! 0) = ''demo''" by code_simp
  have r: "map_of (ffmpegProcesses ?s) ''demo'' = Some 0" by code_simp
  have e: "stderr ?s @ [''FFmpeg Error: '' @ ''spawn ffmpeg ENOENT''] = [''FFmpeg Error: spawn ffmpeg ENOENT'']"
    by code_simp
  note t = failed_launch_surfaced_and_aborted [OF h1 h2, of "''spawn ffmpeg ENOENT''" "Some (- 2)"]
  have a: "stderr (run ?s [ChildError 0 ''spawn ffmpeg ENOENT'', ChildClose 0 (Some (- 2))])
        = [''FFmpeg Error: spawn ffmpeg ENOENT'']"
    by (rule conjunct1 [OF conjunct2 [OF t [unfolded e]]])
  have b: "map_of (ffmpegProcesses (run ?s [ChildError 0 ''spawn ffmpeg ENOENT'', ChildClose 0 (Some (- 2))])) ''demo'' = None"
    by (rule conjunct1 [OF conjunct2 [OF conjunct2 [OF t [unfolded k]]]])
  show ?thesis by (rule conjI [OF h1 conjI [OF h2 conjI [OF r conjI [OF a b]]]])
qed

text \<open>
  C9. Whatever file under \<open>/live\<close> is served and whatever headers the response already
  carries, the header callback leaves \<open>Cache-Control\<close> at
  \<open>no-cache, no-store, must-revalidate\<close> and \<open>Access-Control-Allow-Origin\<close> at
  \<open>*\<close>; the content type is the playlist type for a path ending in \<open>.m3u8\<close>, the
  segment type for a path ending in \<open>.ts\<close>, and is left as it was for any other path.
\<close>

theorem live_response_headers:
  "setHeaders res filePath ''Cache-Control'' = Some ''no-cache, no-store, must-revalidate''
   \<and> setHeaders res filePath ''Access-Control-Allow-Origin'' = Some ''*''
   \<and> setHeaders res filePath ''Content-Type'' =
        (if endsWith filePath ''.m3u8'' then Some ''application/vnd.apple.mpegurl''
         else if endsWith filePath ''.ts'' then Some ''video/mp2t''
         else res ''Content-Type'')"
  by (simp add: setHeaders_def res_set_def Let_def)

text \<open>
  C10. A stop request for a key leaves the registry without an entry for that key, and
  marks no child as closed: the exit has not been observed. When the \<open>close\<close> event
  of a child \<open>p\<close> arrives later and the entry under its key is by then the handle of
  another child \<open>q\<close>, the listener deletes that entry all the same; \<open>q\<close> is not
  closed by this, so it runs on with no entry in the registry.
\<close>

theorem stop_forgets_then_close_deletes_newer:
  assumes "exitCode s = None" and "p < length (children s)" and "q < length (children s)"
    and "q \<noteq> p" and "map_of (ffmpegProcesses s) (handlerKey (children s ! p)) = Some q"
  shows "map_of (ffmpegProcesses (stopFFmpegTranscoding k s)) k = None
       \<and> map closed (children (stopFFmpegTranscoding k s)) = map closed (children s)
       \<and> map_of (ffmpegProcesses (step s (ChildClose p code))) (handlerKey (children s ! p)) = None
       \<and> closed (children (step s (ChildClose p code)) ! q) = closed (children s ! q)"
proof -
  have "map_of (ffmpegProcesses (stopFFmpegTranscoding k s)) k = None"
    by (simp add: stop_fields AList.delete_conv')
  moreover have "map closed (children (stopFFmpegTranscoding k s)) = map closed (children s)"
    by (rule stop_fields)
  moreover have "map_of (ffmpegProcesses (step s (ChildClose p code))) (handlerKey (children s ! p)) = None"
    using assms(1,2) by (simp add: step_close onClose_fields AList.delete_conv')
  moreover have "closed (children (step s (ChildClose p code)) ! q) = closed (children s ! q)"
    using assms(1,2,3,4) by (simp add: step_close onClose_def)
  ultimately show ?thesis by blast
qed

text \<open>
  The run of the claim: a job is started and stopped, a second job is started under the
  same key, and then the first job's \<open>close\<close> arrives. The entry of the second job
  (handle 1) is deleted while that job is not closed.
\<close>

theorem stop_forgets_then_close_deletes_newer_witness:
  "exitCode (run (init ''/app'' {} {} True)
      [PostPublish ''demo'', StartTimer, DonePublish ''demo'', PostPublish ''demo'', StartTimer]) = None
   \<and> map_of (ffmpegProcesses (run (init ''/app'' {} {} True)
      [PostPublish ''demo'', StartTimer, DonePublish ''demo'', PostPublish ''demo'', StartTimer])) ''demo'' = Some 1
   \<and> map_of (ffmpegProcesses (step (run (init ''/app'' {} {} True)
      [PostPublish ''demo'', StartTimer, DonePublish ''demo'', PostPublish ''demo'', StartTimer])
      (ChildClose 0 None))) ''demo'' = None
   \<and> closed (children (step (run (init ''/app'' {} {} True)
      [PostPublish ''demo'', StartTimer, DonePublish ''demo'', PostPublish ''demo'', StartTimer])
      (ChildClose 0 None)) ! 1) = False"
proof -
  let ?s = "run (init ''/app'' {} {} True)
      [PostPublish ''demo'', StartTimer, DonePublish ''demo'', PostPublish ''demo'', StartTimer]"
  have h1: "exitCode ?s = None" by code_simp
  have h2: "0 < length (children ?s)" by code_simp
  have h3: "1 < length (children ?s)" by code_simp
  have h4: "(1::nat) \<noteq> 0" by simp
  have k: "handlerKey (children ?s ! 0) = ''demo''" by code_simp
  have r: "map_of (ffmpegProcesses ?s) ''demo'' = Some 1" by code_simp
  have h5: "map_of (ffmpegProcesses ?s) (handlerKey (children ?s ! 0)) = Some 1"
    unfolding k by (rule r)
  have c: "closed (children ?s ! 1) = False" by code_simp
  note t = stop_forgets_then_close_deletes_newer [OF h1 h2 h3 h4 h5, of "''demo''" None]
  have a: "map_of (ffmpegProcesses (step ?s (ChildClose 0 None))) ''demo'' = None"
    by (rule conjunct1 [OF conjunct2 [OF conjunct2 [OF t [unfolded k]]]])
  have b: "closed (children (step ?s (ChildClose 0 None)) ! 1) = False"
    by (rule conjunct2 [OF conjunct2 [OF conjunct2 [OF t [unfolded c]]]])
  show ?thesis by (rule conjI [OF h1 conjI [OF r conjI [OF a b]]])
qed

end
